theory Spec2Isabelle
  imports Main "HOL-Library.Multiset"
begin

section \<open>Login-request lifecycle of server.js\<close>

text \<open>
  The development embeds the request handlers of \<^verbatim>\<open>src/server.js\<close>: the guard every
  handler uses to choose between the process-local mock store and the PostgreSQL pool,
  the mock branch of each handler as it is written, and the SQL statements the other
  branch sends, with the tables of \<^verbatim>\<open>initializeDatabase\<close> as the store.

  The state of the server is what the module keeps between requests: the pool built at
  start-up, the mock store, and the tables behind the pool. A handler runs from its first
  line to its response without interleaving with another handler. Each \<^verbatim>\<open>pool.query\<close>
  gets a \<open>conn\<close>: whether the statement reaches the store, and the store's
  \<^verbatim>\<open>CURRENT_TIMESTAMP\<close> for it. Each \<^verbatim>\<open>new Date()\<close> of the mock branch is a parameter of
  the handler. Times are natural numbers (ticks of the clock that was read).
\<close>

subsection \<open>JavaScript values\<close>

text \<open>
  The values a body field or an environment variable takes here: absent, \<^verbatim>\<open>null\<close>, a
  boolean or a string. Numbers, arrays and objects in a request body are outside the
  model.
\<close>

datatype jsval = JUndefined | JNull | JBool bool | JStr string

fun truthy :: "jsval \<Rightarrow> bool" where
  "truthy JUndefined = False"
| "truthy JNull = False"
| "truthy (JBool b) = b"
| "truthy (JStr s) = (s \<noteq> [])"

text \<open>\<^verbatim>\<open>a === b\<close>: same type and same value.\<close>

definition strict_eq :: "jsval \<Rightarrow> jsval \<Rightarrow> bool" where
  "strict_eq a b = (a = b)"

text \<open>\<^verbatim>\<open>a || b\<close>.\<close>

definition js_or :: "jsval \<Rightarrow> jsval \<Rightarrow> jsval" where
  "js_or a b = (if truthy a then a else b)"

subsection \<open>Environment and the mock-database guard\<close>

record env =
  DATABASE_URL :: "string option"
  NODE_ENV :: "string option"

text \<open>\<^verbatim>\<open>process.env.X\<close>: a string, or \<^verbatim>\<open>undefined\<close> when the variable is not set.\<close>

definition env_get :: "string option \<Rightarrow> jsval" where
  "env_get v = (case v of None \<Rightarrow> JUndefined | Some s \<Rightarrow> JStr s)"

text \<open>
  The condition of every handler (lines 100, 131, 152, 170, 200, 250, 298):
  \<^verbatim>\<open>!process.env.DATABASE_URL && !process.env.NODE_ENV === 'production'\<close>.
  Unary \<^verbatim>\<open>!\<close> binds tighter than \<^verbatim>\<open>===\<close>, so the right operand compares the boolean
  \<^verbatim>\<open>!process.env.NODE_ENV\<close> with the string.
\<close>

definition using_mock :: "env \<Rightarrow> bool" where
  "using_mock e =
     (\<not> truthy (env_get (DATABASE_URL e)) \<and>
      strict_eq (JBool (\<not> truthy (env_get (NODE_ENV e)))) (JStr ''production''))"

subsection \<open>Records of the two stores\<close>

text \<open>
  The field \<^verbatim>\<open>id\<close> is \<open>req_id\<close> (\<open>att_id\<close> in an attempt), since \<open>id\<close> is the identity
  function of HOL; the fields of an attempt carry the prefix \<open>att_\<close>.
\<close>

record login_request =
  req_id :: nat
  username :: jsval
  password :: jsval
  ip_address :: jsval
  status :: string
  created_at :: nat
  updated_at :: nat

record login_attempt =
  att_id :: nat
  att_username :: jsval
  att_ip_address :: jsval
  att_status :: string
  att_created_at :: nat

text \<open>
  \<^verbatim>\<open>mockData\<close> and the counter \<^verbatim>\<open>nextId\<close> of \<^verbatim>\<open>generateId\<close> (lines 26 to 35). The source
  declares them inside the \<^verbatim>\<open>catch\<close> block of the pool's construction; the mock branches of
  the handlers are embedded as they are written, over a mock store that is part of the
  state.
\<close>

record mock_data =
  login_requests :: "login_request list"
  login_attempts :: "login_attempt list"
  nextId :: nat

text \<open>
  The two tables of \<^verbatim>\<open>initializeDatabase\<close> (lines 49 to 69), each with the sequence of its
  \<^verbatim>\<open>SERIAL\<close> key. Rows are kept in insertion order.
\<close>

record database =
  requests_tbl :: "login_request list"
  requests_seq :: nat
  attempts_tbl :: "login_attempt list"
  attempts_seq :: nat

text \<open>
  The value of \<^verbatim>\<open>pool\<close> after lines 17 to 44: the pool of the driver, or the mock pool
  object of the \<^verbatim>\<open>catch\<close> block when \<^verbatim>\<open>new Pool\<close> threw.
\<close>

datatype pool_kind = Pg_pool | Mock_pool

record state =
  pool :: pool_kind
  mockData :: mock_data
  db :: database

text \<open>
  The state after start-up, with empty tables; \<open>pool_threw\<close> says whether \<^verbatim>\<open>new Pool\<close>
  threw.
\<close>

definition boot :: "bool \<Rightarrow> state" where
  "boot pool_threw =
     \<lparr>pool = (if pool_threw then Mock_pool else Pg_pool),
      mockData = \<lparr>login_requests = [], login_attempts = [], nextId = 1\<rparr>,
      db = \<lparr>requests_tbl = [], requests_seq = 1, attempts_tbl = [], attempts_seq = 1\<rparr>\<rparr>"

subsection \<open>The store behind pool.query\<close>

record conn =
  up :: bool
  current_timestamp :: nat

text \<open>
  \<^verbatim>\<open>pool.query\<close>: the pool of the driver runs the statement \<open>stmt\<close>, whose result is
  \<open>None\<close> when it throws; the mock pool object (lines 38 to 43) answers every query
  with \<^verbatim>\<open>{ rows: [] }\<close>, here \<open>no_rows\<close>, and never throws.
\<close>

definition pool_query :: "pool_kind \<Rightarrow> 'a \<Rightarrow> 'a option \<Rightarrow> 'a option" where
  "pool_query k no_rows stmt = (case k of Pg_pool \<Rightarrow> stmt | Mock_pool \<Rightarrow> Some no_rows)"

text \<open>
  How the driver sends a parameter: \<^verbatim>\<open>undefined\<close> and \<^verbatim>\<open>null\<close> as NULL, anything else
  by its \<^verbatim>\<open>toString()\<close>.
\<close>

fun prepareValue :: "jsval \<Rightarrow> jsval" where
  "prepareValue JUndefined = JNull"
| "prepareValue JNull = JNull"
| "prepareValue (JBool b) = JStr (if b then ''true'' else ''false'')"
| "prepareValue (JStr s) = JStr s"

text \<open>
  Storing into a \<^verbatim>\<open>VARCHAR(n)\<close> column: a longer string is an error, unless the excess is
  all spaces, which are cut off. NULL is stored as it is.
\<close>

definition varchar :: "nat \<Rightarrow> jsval \<Rightarrow> jsval option" where
  "varchar n v =
     (case v of
        JStr s \<Rightarrow>
          (if length s \<le> n then Some (JStr s)
           else if list_all (\<lambda>c. c = CHR '' '') (drop n s) then Some (JStr (take n s))
           else None)
      | _ \<Rightarrow> Some v)"

text \<open>
  \<^verbatim>\<open>INSERT INTO login_requests (username, password, ip_address) VALUES ($1, $2, $3)
  RETURNING *\<close>: the key from the sequence, \<^verbatim>\<open>status\<close> and both timestamps from their
  column defaults, \<^verbatim>\<open>username\<close> and \<^verbatim>\<open>password\<close> \<^verbatim>\<open>NOT NULL\<close>. The result is the rows
  returned and the store after the statement. A statement that throws leaves the store
  as it was.
\<close>

definition insert_login_request ::
  "conn \<Rightarrow> jsval \<Rightarrow> jsval \<Rightarrow> jsval \<Rightarrow> database \<Rightarrow>
     (login_request list \<times> database) option" where
  "insert_login_request c p1 p2 p3 d =
     (if \<not> up c then None
      else
        (case (varchar 255 (prepareValue p1), varchar 255 (prepareValue p2),
               varchar 45 (prepareValue p3)) of
           (Some u, Some p, Some ip) \<Rightarrow>
             (if u = JNull \<or> p = JNull then None
              else
                (let row = \<lparr>req_id = requests_seq d, username = u, password = p,
                            ip_address = ip, status = ''pending'',
                            created_at = current_timestamp c,
                            updated_at = current_timestamp c\<rparr>
                 in Some ([row], d\<lparr>requests_tbl := requests_tbl d @ [row],
                                  requests_seq := requests_seq d + 1\<rparr>)))
         | _ \<Rightarrow> None))"

text \<open>
  \<^verbatim>\<open>ORDER BY created_at DESC\<close>. SQL leaves the order of rows with equal keys open; here
  they come latest-inserted first.
\<close>

definition order_by_created_at_desc :: "login_request list \<Rightarrow> login_request list" where
  "order_by_created_at_desc rows = rev (sort_key created_at rows)"

text \<open>\<^verbatim>\<open>SELECT * FROM login_requests WHERE status = $1 ORDER BY created_at DESC\<close>.\<close>

definition select_by_status :: "conn \<Rightarrow> string \<Rightarrow> database \<Rightarrow> login_request list option" where
  "select_by_status c st d =
     (if \<not> up c then None
      else Some (order_by_created_at_desc (filter (\<lambda>r. status r = st) (requests_tbl d))))"

text \<open>\<^verbatim>\<open>SELECT * FROM login_requests ORDER BY created_at DESC\<close>.\<close>

definition select_all :: "conn \<Rightarrow> database \<Rightarrow> login_request list option" where
  "select_all c d =
     (if \<not> up c then None else Some (order_by_created_at_desc (requests_tbl d)))"

text \<open>\<^verbatim>\<open>SELECT * FROM login_requests WHERE id = $1\<close>.\<close>

definition select_by_id :: "conn \<Rightarrow> nat \<Rightarrow> database \<Rightarrow> login_request list option" where
  "select_by_id c i d =
     (if \<not> up c then None else Some (filter (\<lambda>r. req_id r = i) (requests_tbl d)))"

text \<open>
  \<^verbatim>\<open>UPDATE login_requests SET status = $1, updated_at = CURRENT_TIMESTAMP WHERE id = $2
  RETURNING *\<close>: the rows returned and the store after it.
\<close>

definition update_status ::
  "conn \<Rightarrow> string \<Rightarrow> nat \<Rightarrow> database \<Rightarrow> (login_request list \<times> database) option" where
  "update_status c st i d =
     (if \<not> up c then None
      else
        (let rows = map (\<lambda>r. if req_id r = i
                              then r\<lparr>status := st, updated_at := current_timestamp c\<rparr>
                              else r) (requests_tbl d)
         in Some (filter (\<lambda>r. req_id r = i) rows, d\<lparr>requests_tbl := rows\<rparr>)))"

text \<open>
  \<^verbatim>\<open>INSERT INTO login_attempts (username, ip_address, status) VALUES ($1, $2, $3)\<close>.
\<close>

definition insert_login_attempt ::
  "conn \<Rightarrow> jsval \<Rightarrow> jsval \<Rightarrow> string \<Rightarrow> database \<Rightarrow> database option" where
  "insert_login_attempt c p1 p2 p3 d =
     (if \<not> up c then None
      else
        (case (varchar 255 (prepareValue p1), varchar 45 (prepareValue p2),
               varchar 20 (JStr p3)) of
           (Some u, Some ip, Some (JStr st)) \<Rightarrow>
             (let row = \<lparr>att_id = attempts_seq d, att_username = u, att_ip_address = ip,
                         att_status = st, att_created_at = current_timestamp c\<rparr>
              in Some (d\<lparr>attempts_tbl := attempts_tbl d @ [row],
                         attempts_seq := attempts_seq d + 1\<rparr>))
         | _ \<Rightarrow> None))"

text \<open>
  \<^verbatim>\<open>SELECT COUNT(*) FROM login_requests\<close> with an optional \<^verbatim>\<open>WHERE\<close>: one row, here the
  number that \<^verbatim>\<open>parseInt\<close> reads from its \<^verbatim>\<open>count\<close>.
\<close>

definition select_count ::
  "conn \<Rightarrow> (login_request \<Rightarrow> bool) \<Rightarrow> database \<Rightarrow> nat list option" where
  "select_count c cond d =
     (if \<not> up c then None else Some [length (filter cond (requests_tbl d))])"

subsection \<open>Responses\<close>

record statistics =
  total :: nat
  approved :: nat
  rejected :: nat
  pending :: nat
  today :: nat

text \<open>
  \<^verbatim>\<open>res.json(...)\<close> of a request, of a list of requests, of the statistics or of
  \<^verbatim>\<open>undefined\<close> (\<^verbatim>\<open>rows[0]\<close> of no rows); \<^verbatim>\<open>res.status(404)\<close> (not found);
  \<^verbatim>\<open>res.status(500)\<close> from the \<^verbatim>\<open>catch\<close> of a handler.
\<close>

datatype response =
  Json_request login_request
| Json_requests "login_request list"
| Json_statistics statistics
| Json_undefined
| Http_404
| Http_500

subsection \<open>Handlers\<close>

text \<open>\<^verbatim>\<open>Array.prototype.findIndex\<close>, with \<open>None\<close> for \<^verbatim>\<open>-1\<close>.\<close>

fun findIndex :: "('a \<Rightarrow> bool) \<Rightarrow> 'a list \<Rightarrow> nat option" where
  "findIndex P [] = None"
| "findIndex P (x # xs) =
     (if P x then Some 0 else map_option Suc (findIndex P xs))"

text \<open>
  \<^verbatim>\<open>POST /api/login-requests\<close> (lines 95 to 125). \<open>t1\<close> and \<open>t2\<close> are the two
  \<^verbatim>\<open>new Date()\<close> of the mock branch, \<open>c\<close> belongs to the \<^verbatim>\<open>INSERT\<close>.
\<close>

definition post_login_requests ::
  "env \<Rightarrow> jsval \<Rightarrow> jsval \<Rightarrow> jsval \<Rightarrow> nat \<Rightarrow> nat \<Rightarrow> conn \<Rightarrow> state \<Rightarrow> response \<times> state" where
  "post_login_requests e usernm passwd ipAddress t1 t2 c s =
     (if using_mock e then
        (let m = mockData s;
             newRequest = \<lparr>req_id = nextId m, username = usernm, password = passwd,
                           ip_address = js_or ipAddress (JStr ''127.0.0.1''),
                           status = ''pending'', created_at = t1, updated_at = t2\<rparr>
         in (Json_request newRequest,
             s\<lparr>mockData := m\<lparr>login_requests := login_requests m @ [newRequest],
                              nextId := nextId m + 1\<rparr>\<rparr>))
      else
        (case pool_query (pool s) ([], db s)
                (insert_login_request c usernm passwd
                   (js_or ipAddress (JStr ''127.0.0.1'')) (db s)) of
           None \<Rightarrow> (Http_500, s)
         | Some (rows, d) \<Rightarrow>
             (case rows of
                [] \<Rightarrow> (Json_undefined, s\<lparr>db := d\<rparr>)
              | row # _ \<Rightarrow> (Json_request row, s\<lparr>db := d\<rparr>))))"

text \<open>\<^verbatim>\<open>GET /api/login-requests/pending\<close> (lines 128 to 146).\<close>

definition get_pending :: "env \<Rightarrow> conn \<Rightarrow> state \<Rightarrow> response \<times> state" where
  "get_pending e c s =
     (if using_mock e then
        (Json_requests (filter (\<lambda>request. status request = ''pending'')
                          (login_requests (mockData s))), s)
      else
        (case pool_query (pool s) [] (select_by_status c ''pending'' (db s)) of
           None \<Rightarrow> (Http_500, s)
         | Some rows \<Rightarrow> (Json_requests rows, s)))"

text \<open>\<^verbatim>\<open>GET /api/login-requests\<close> (lines 149 to 162).\<close>

definition get_login_requests :: "env \<Rightarrow> conn \<Rightarrow> state \<Rightarrow> response \<times> state" where
  "get_login_requests e c s =
     (if using_mock e then (Json_requests (login_requests (mockData s)), s)
      else
        (case pool_query (pool s) [] (select_all c (db s)) of
           None \<Rightarrow> (Http_500, s)
         | Some rows \<Rightarrow> (Json_requests rows, s)))"

text \<open>
  \<^verbatim>\<open>GET /api/login-requests/:id\<close> (lines 165 to 192). The route parameter is the number
  it denotes.
\<close>

definition get_login_request :: "env \<Rightarrow> nat \<Rightarrow> conn \<Rightarrow> state \<Rightarrow> response \<times> state" where
  "get_login_request e i c s =
     (if using_mock e then
        (case find (\<lambda>req. req_id req = i) (login_requests (mockData s)) of
           None \<Rightarrow> (Http_404, s)
         | Some request \<Rightarrow> (Json_request request, s))
      else
        (case pool_query (pool s) [] (select_by_id c i (db s)) of
           None \<Rightarrow> (Http_500, s)
         | Some rows \<Rightarrow>
             (case rows of
                [] \<Rightarrow> (Http_404, s)
              | row # _ \<Rightarrow> (Json_request row, s))))"

text \<open>
  \<^verbatim>\<open>PUT /api/login-requests/:id/approve\<close> (lines 195 to 242) and
  \<^verbatim>\<open>PUT /api/login-requests/:id/reject\<close> (lines 245 to 292) are the same text up to the
  status they write, the parameter \<open>outcome\<close> here. \<open>t1\<close> and \<open>t2\<close> are the two
  \<^verbatim>\<open>new Date()\<close> of the mock branch, \<open>c1\<close> belongs to the \<^verbatim>\<open>UPDATE\<close> and \<open>c2\<close> to the
  \<^verbatim>\<open>INSERT\<close> into \<^verbatim>\<open>login_attempts\<close>.
\<close>

definition put_resolve ::
  "string \<Rightarrow> env \<Rightarrow> nat \<Rightarrow> nat \<Rightarrow> nat \<Rightarrow> conn \<Rightarrow> conn \<Rightarrow> state \<Rightarrow> response \<times> state" where
  "put_resolve outcome e i t1 t2 c1 c2 s =
     (if using_mock e then
        (let m = mockData s in
         case findIndex (\<lambda>req. req_id req = i) (login_requests m) of
           None \<Rightarrow> (Http_404, s)
         | Some requestIndex \<Rightarrow>
             (let reqs1 = (login_requests m)
                            [requestIndex := (login_requests m ! requestIndex)
                                               \<lparr>status := outcome\<rparr>];
                  reqs2 = reqs1[requestIndex := (reqs1 ! requestIndex)\<lparr>updated_at := t1\<rparr>];
                  attempt = \<lparr>att_id = nextId m,
                             att_username = username (reqs2 ! requestIndex),
                             att_ip_address = ip_address (reqs2 ! requestIndex),
                             att_status = outcome, att_created_at = t2\<rparr>
              in (Json_request (reqs2 ! requestIndex),
                  s\<lparr>mockData := m\<lparr>login_requests := reqs2,
                                   login_attempts := login_attempts m @ [attempt],
                                   nextId := nextId m + 1\<rparr>\<rparr>)))
      else
        (case pool_query (pool s) ([], db s) (update_status c1 outcome i (db s)) of
           None \<Rightarrow> (Http_500, s)
         | Some (rows, d1) \<Rightarrow>
             (case rows of
                [] \<Rightarrow> (Http_404, s\<lparr>db := d1\<rparr>)
              | request # _ \<Rightarrow>
                  (case pool_query (pool s) d1
                          (insert_login_attempt c2 (username request) (ip_address request)
                             outcome d1) of
                     None \<Rightarrow> (Http_500, s\<lparr>db := d1\<rparr>)
                   | Some d2 \<Rightarrow> (Json_request request, s\<lparr>db := d2\<rparr>)))))"

definition put_approve ::
  "env \<Rightarrow> nat \<Rightarrow> nat \<Rightarrow> nat \<Rightarrow> conn \<Rightarrow> conn \<Rightarrow> state \<Rightarrow> response \<times> state" where
  "put_approve = put_resolve ''approved''"

definition put_reject ::
  "env \<Rightarrow> nat \<Rightarrow> nat \<Rightarrow> nat \<Rightarrow> conn \<Rightarrow> conn \<Rightarrow> state \<Rightarrow> response \<times> state" where
  "put_reject = put_resolve ''rejected''"

text \<open>
  \<^verbatim>\<open>GET /api/statistics\<close> (lines 295 to 343). \<open>midnight\<close> is \<^verbatim>\<open>today\<close> after
  \<^verbatim>\<open>setHours(0, 0, 0, 0)\<close>; \<open>c1\<close> to \<open>c5\<close> belong to the five \<^verbatim>\<open>SELECT COUNT(*)\<close>.
  Reading \<^verbatim>\<open>rows[0].count\<close> of no rows throws, which the \<^verbatim>\<open>catch\<close> answers with 500.
\<close>

definition get_statistics ::
  "env \<Rightarrow> nat \<Rightarrow> conn \<Rightarrow> conn \<Rightarrow> conn \<Rightarrow> conn \<Rightarrow> conn \<Rightarrow> state \<Rightarrow> response \<times> state" where
  "get_statistics e midnight c1 c2 c3 c4 c5 s =
     (if using_mock e then
        (let reqs = login_requests (mockData s) in
         (Json_statistics
            \<lparr>total = length reqs,
             approved = length (filter (\<lambda>req. status req = ''approved'') reqs),
             rejected = length (filter (\<lambda>req. status req = ''rejected'') reqs),
             pending = length (filter (\<lambda>req. status req = ''pending'') reqs),
             today = length (filter (\<lambda>req. created_at req \<ge> midnight) reqs)\<rparr>, s))
      else
        (case pool_query (pool s) [] (select_count c1 (\<lambda>r. True) (db s)) of
           None \<Rightarrow> (Http_500, s)
         | Some totalRequests \<Rightarrow>
        (case pool_query (pool s) []
                (select_count c2 (\<lambda>r. status r = ''approved'') (db s)) of
           None \<Rightarrow> (Http_500, s)
         | Some approvedRequests \<Rightarrow>
        (case pool_query (pool s) []
                (select_count c3 (\<lambda>r. status r = ''rejected'') (db s)) of
           None \<Rightarrow> (Http_500, s)
         | Some rejectedRequests \<Rightarrow>
        (case pool_query (pool s) []
                (select_count c4 (\<lambda>r. status r = ''pending'') (db s)) of
           None \<Rightarrow> (Http_500, s)
         | Some pendingRequests \<Rightarrow>
        (case pool_query (pool s) []
                (select_count c5 (\<lambda>r. created_at r \<ge> midnight) (db s)) of
           None \<Rightarrow> (Http_500, s)
         | Some todayRequests \<Rightarrow>
        (case totalRequests of [] \<Rightarrow> (Http_500, s) | total_count # _ \<Rightarrow>
        (case approvedRequests of [] \<Rightarrow> (Http_500, s) | approved_count # _ \<Rightarrow>
        (case rejectedRequests of [] \<Rightarrow> (Http_500, s) | rejected_count # _ \<Rightarrow>
        (case pendingRequests of [] \<Rightarrow> (Http_500, s) | pending_count # _ \<Rightarrow>
        (case todayRequests of [] \<Rightarrow> (Http_500, s) | today_count # _ \<Rightarrow>
             (Json_statistics
                \<lparr>total = total_count, approved = approved_count,
                 rejected = rejected_count, pending = pending_count,
                 today = today_count\<rparr>, s))))))))))))"

subsection \<open>Runs of the server\<close>

text \<open>One HTTP request with everything its handler reads from outside.\<close>

datatype op =
  Post_login_requests jsval jsval jsval nat nat conn
| Get_pending conn
| Get_login_requests conn
| Get_login_request nat conn
| Put_approve nat nat nat conn conn
| Put_reject nat nat nat conn conn
| Get_statistics nat conn conn conn conn conn

fun handle :: "env \<Rightarrow> op \<Rightarrow> state \<Rightarrow> response \<times> state" where
  "handle e (Post_login_requests u p ip t1 t2 c) s = post_login_requests e u p ip t1 t2 c s"
| "handle e (Get_pending c) s = get_pending e c s"
| "handle e (Get_login_requests c) s = get_login_requests e c s"
| "handle e (Get_login_request i c) s = get_login_request e i c s"
| "handle e (Put_approve i t1 t2 c1 c2) s = put_approve e i t1 t2 c1 c2 s"
| "handle e (Put_reject i t1 t2 c1 c2) s = put_reject e i t1 t2 c1 c2 s"
| "handle e (Get_statistics m c1 c2 c3 c4 c5) s = get_statistics e m c1 c2 c3 c4 c5 s"

text \<open>The state after a sequence of requests, served one after the other.\<close>

fun run :: "env \<Rightarrow> op list \<Rightarrow> state \<Rightarrow> state" where
  "run e [] s = s"
| "run e (x # xs) s = run e xs (snd (handle e x s))"

subsection \<open>What a caller can observe, and the invariant of the store\<close>

text \<open>The records of the store a handler works on.\<close>

definition stored_requests :: "env \<Rightarrow> state \<Rightarrow> login_request list" where
  "stored_requests e s =
     (if using_mock e then login_requests (mockData s) else requests_tbl (db s))"

definition stored_attempts :: "env \<Rightarrow> state \<Rightarrow> login_attempt list" where
  "stored_attempts e s =
     (if using_mock e then login_attempts (mockData s) else attempts_tbl (db s))"

text \<open>The two counts of the invariant on the attempt log, for a username \<open>u\<close>.\<close>

definition attempts_of :: "env \<Rightarrow> jsval \<Rightarrow> state \<Rightarrow> nat" where
  "attempts_of e u s = length (filter (\<lambda>a. att_username a = u) (stored_attempts e s))"

definition resolved_of :: "env \<Rightarrow> jsval \<Rightarrow> state \<Rightarrow> nat" where
  "resolved_of e u s =
     length (filter (\<lambda>r. username r = u \<and> status r \<noteq> ''pending'') (stored_requests e s))"

text \<open>
  A request resolves for the first time when no stored record with its id has left
  \<^verbatim>\<open>pending\<close>; a run has no re-resolution when each of its approve and reject requests
  does.
\<close>

fun first_resolution :: "env \<Rightarrow> op \<Rightarrow> state \<Rightarrow> bool" where
  "first_resolution e (Put_approve i t1 t2 c1 c2) s =
     list_all (\<lambda>r. req_id r \<noteq> i \<or> status r = ''pending'') (stored_requests e s)"
| "first_resolution e (Put_reject i t1 t2 c1 c2) s =
     list_all (\<lambda>r. req_id r \<noteq> i \<or> status r = ''pending'') (stored_requests e s)"
| "first_resolution e x s = True"

fun no_reresolution :: "env \<Rightarrow> op list \<Rightarrow> state \<Rightarrow> bool" where
  "no_reresolution e [] s = True"
| "no_reresolution e (x # xs) s =
     (first_resolution e x s \<and> no_reresolution e xs (snd (handle e x s)))"

text \<open>The \<^verbatim>\<open>INSERT\<close> into \<^verbatim>\<open>login_attempts\<close> of an approve or reject request reaches the store.\<close>

fun attempt_insert_up :: "op \<Rightarrow> bool" where
  "attempt_insert_up (Put_approve i t1 t2 c1 c2) = up c2"
| "attempt_insert_up (Put_reject i t1 t2 c1 c2) = up c2"
| "attempt_insert_up x = True"

text \<open>The request is an approve or a reject.\<close>

fun is_resolve :: "op \<Rightarrow> bool" where
  "is_resolve (Put_approve i t1 t2 c1 c2) = True"
| "is_resolve (Put_reject i t1 t2 c1 c2) = True"
| "is_resolve x = False"

text \<open>A string of at most \<open>n\<close> characters, as a \<^verbatim>\<open>VARCHAR(n)\<close> column holds it.\<close>

fun fits :: "nat \<Rightarrow> jsval \<Rightarrow> bool" where
  "fits n (JStr s) = (length s \<le> n)"
| "fits n v = False"

text \<open>
  What holds of the tables in every state the handlers produce: keys are distinct and
  below the sequence, a status is one of the three the handlers write, and
  \<^verbatim>\<open>username\<close> and \<^verbatim>\<open>ip_address\<close> are strings within their columns.
\<close>

definition row_ok :: "login_request \<Rightarrow> bool" where
  "row_ok r =
     ((status r = ''pending'' \<or> status r = ''approved'' \<or> status r = ''rejected'') \<and>
      fits 255 (username r) \<and> fits 45 (ip_address r))"

definition db_inv :: "database \<Rightarrow> bool" where
  "db_inv d =
     (distinct (map req_id (requests_tbl d)) \<and>
      list_all (\<lambda>r. req_id r < requests_seq d \<and> row_ok r) (requests_tbl d))"

text \<open>Descending in \<^verbatim>\<open>created_at\<close>: no record is followed by one created later.\<close>

definition created_at_desc :: "login_request list \<Rightarrow> bool" where
  "created_at_desc rs = sorted_wrt (\<lambda>a b. created_at a \<ge> created_at b) rs"

subsection \<open>Sample inputs\<close>

text \<open>
  Inputs the examples below are evaluated at: an environment with neither variable set
  and one of a production deployment, a store that answers at time \<open>t\<close> and one that
  is not reached, three submissions, and the records the first two of them become.
\<close>

abbreviation unset_env :: env where
  "unset_env \<equiv> \<lparr>DATABASE_URL = None, NODE_ENV = None\<rparr>"

abbreviation production_env :: env where
  "production_env \<equiv>
     \<lparr>DATABASE_URL = Some ''postgres://db'', NODE_ENV = Some ''production''\<rparr>"

abbreviation store_at :: "nat \<Rightarrow> conn" where
  "store_at t \<equiv> \<lparr>up = True, current_timestamp = t\<rparr>"

abbreviation store_down :: conn where
  "store_down \<equiv> \<lparr>up = False, current_timestamp = 0\<rparr>"

abbreviation submit_alice :: op where
  "submit_alice \<equiv>
     Post_login_requests (JStr ''alice'') (JStr ''pw1'') JUndefined 0 0 (store_at 7)"

abbreviation submit_bob :: op where
  "submit_bob \<equiv>
     Post_login_requests (JStr ''bob'') (JStr ''pw2'') (JStr ''10.0.0.2'') 0 0 (store_at 9)"

abbreviation submit_carol :: op where
  "submit_carol \<equiv>
     Post_login_requests (JStr ''carol'') (JStr ''pw3'') (JStr []) 0 0 (store_at 11)"

abbreviation alice_request :: "string \<Rightarrow> nat \<Rightarrow> login_request" where
  "alice_request st t \<equiv>
     \<lparr>req_id = 1, username = JStr ''alice'', password = JStr ''pw1'',
      ip_address = JStr ''127.0.0.1'', status = st, created_at = 7, updated_at = t\<rparr>"

abbreviation bob_request :: login_request where
  "bob_request \<equiv>
     \<lparr>req_id = 2, username = JStr ''bob'', password = JStr ''pw2'',
      ip_address = JStr ''10.0.0.2'', status = ''pending'', created_at = 9, updated_at = 9\<rparr>"

abbreviation carol_request :: login_request where
  "carol_request \<equiv>
     \<lparr>req_id = 1, username = JStr ''carol'', password = JStr ''pw3'',
      ip_address = JStr ''127.0.0.1'', status = ''pending'', created_at = 11,
      updated_at = 11\<rparr>"

section \<open>Facts about the guard and the store\<close>

lemma using_mock_never: "\<not> using_mock e"
  by (simp add: using_mock_def strict_eq_def)

lemma stored_requests_db: "stored_requests e s = requests_tbl (db s)"
  by (simp add: stored_requests_def using_mock_never)

lemma stored_attempts_db: "stored_attempts e s = attempts_tbl (db s)"
  by (simp add: stored_attempts_def using_mock_never)

lemma varchar_prepare_fits: "fits n v \<Longrightarrow> varchar n (prepareValue v) = Some v"
  by (cases v) (simp_all add: varchar_def)

lemma varchar_Some:
  "varchar n (prepareValue v) = Some w \<Longrightarrow> w = JNull \<or> fits n w"
  by (cases v) (auto simp: varchar_def split: if_splits)

lemma varchar_truthy:
  "truthy v \<Longrightarrow> varchar n (prepareValue v) = Some w \<Longrightarrow> fits n w"
  by (cases v) (auto simp: varchar_def split: if_splits)

lemma js_or_truthy: "truthy (js_or v (JStr ''127.0.0.1''))"
  by (simp add: js_or_def)

subsection \<open>The statements\<close>

lemma insert_login_request_Some:
  assumes "insert_login_request c u p ip d = Some (rows, d')"
  shows "\<exists>row. rows = [row] \<and> req_id row = requests_seq d \<and> status row = ''pending'' \<and>
           created_at row = current_timestamp c \<and> updated_at row = current_timestamp c \<and>
           varchar 255 (prepareValue u) = Some (username row) \<and>
           varchar 45 (prepareValue ip) = Some (ip_address row) \<and>
           username row \<noteq> JNull \<and>
           d' = d\<lparr>requests_tbl := requests_tbl d @ [row],
                  requests_seq := requests_seq d + 1\<rparr>"
  using assms
  by (auto simp: insert_login_request_def Let_def split: if_splits option.splits)

lemma insert_login_request_inv:
  assumes "insert_login_request c u p ip d = Some (rows, d')" "truthy ip" "db_inv d"
  shows "db_inv d'"
proof -
  from insert_login_request_Some[OF assms(1)] obtain row where
    f: "req_id row = requests_seq d" "status row = ''pending''"
      "varchar 255 (prepareValue u) = Some (username row)"
      "varchar 45 (prepareValue ip) = Some (ip_address row)"
      "username row \<noteq> JNull"
      "d' = d\<lparr>requests_tbl := requests_tbl d @ [row], requests_seq := requests_seq d + 1\<rparr>"
    by blast
  have "fits 255 (username row)" using varchar_Some[OF f(3)] f(5) by blast
  moreover have "fits 45 (ip_address row)" using varchar_truthy[OF assms(2) f(4)] .
  ultimately have "row_ok row" using f(2) by (simp add: row_ok_def)
  with assms(3) f(1) show ?thesis
    unfolding f(6) db_inv_def
    by (auto simp: list_all_iff less_Suc_eq)
qed

lemma update_status_Some:
  assumes "update_status c st i d = Some (rows, d')"
  shows "up c"
    "requests_tbl d' =
       map (\<lambda>r. if req_id r = i then r\<lparr>status := st, updated_at := current_timestamp c\<rparr>
                 else r) (requests_tbl d)"
    "rows = filter (\<lambda>r. req_id r = i) (requests_tbl d')"
    "requests_seq d' = requests_seq d" "attempts_tbl d' = attempts_tbl d"
    "attempts_seq d' = attempts_seq d"
  using assms by (auto simp: update_status_def Let_def split: if_splits)

lemma map_req_id_update:
  "map req_id (map (\<lambda>r. if req_id r = i then r\<lparr>status := st, updated_at := t\<rparr> else r) rs) =
   map req_id rs"
  by (induction rs) auto

lemma update_status_inv:
  assumes "update_status c st i d = Some (rows, d')" "db_inv d"
    "st = ''approved'' \<or> st = ''rejected''"
  shows "db_inv d'"
proof -
  note f = update_status_Some[OF assms(1)]
  have "map req_id (requests_tbl d') = map req_id (requests_tbl d)"
    unfolding f(2) by (rule map_req_id_update)
  moreover have "list_all (\<lambda>r. req_id r < requests_seq d \<and> row_ok r) (requests_tbl d')"
    using assms(2,3) unfolding db_inv_def f(2)
    by (auto simp: list_all_iff row_ok_def)
  ultimately show ?thesis using assms(2) unfolding db_inv_def f(4) by simp
qed

lemma insert_login_attempt_Some:
  assumes "insert_login_attempt c u ip st d = Some d'"
  shows "up c" "requests_tbl d' = requests_tbl d" "requests_seq d' = requests_seq d"
  using assms
  by (auto simp: insert_login_attempt_def Let_def split: if_splits option.splits jsval.splits)

lemma insert_login_attempt_inv:
  "insert_login_attempt c u ip st d = Some d' \<Longrightarrow> db_inv d \<Longrightarrow> db_inv d'"
  using insert_login_attempt_Some(2,3)[of c u ip st d d'] by (simp add: db_inv_def)

subsection \<open>The handlers on either pool\<close>

lemma post_login_requests_pg:
  "pool s = Pg_pool \<Longrightarrow>
   post_login_requests e u p ip t1 t2 c s =
     (case insert_login_request c u p (js_or ip (JStr ''127.0.0.1'')) (db s) of
        None \<Rightarrow> (Http_500, s)
      | Some (rows, d) \<Rightarrow>
          (case rows of
             [] \<Rightarrow> (Json_undefined, s\<lparr>db := d\<rparr>)
           | row # _ \<Rightarrow> (Json_request row, s\<lparr>db := d\<rparr>)))"
  by (simp add: post_login_requests_def using_mock_never pool_query_def)

lemma post_login_requests_mock:
  "pool s = Mock_pool \<Longrightarrow> post_login_requests e u p ip t1 t2 c s = (Json_undefined, s)"
  by (simp add: post_login_requests_def using_mock_never pool_query_def)

lemma post_login_requests_Json:
  assumes "post_login_requests e u p ip t1 t2 c s = (Json_request r, s')"
  shows "pool s = Pg_pool" "status r = ''pending''"
    "created_at r = current_timestamp c" "updated_at r = current_timestamp c"
    "varchar 45 (prepareValue (js_or ip (JStr ''127.0.0.1''))) = Some (ip_address r)"
    "s' = s\<lparr>db := (db s)\<lparr>requests_tbl := requests_tbl (db s) @ [r],
                            requests_seq := requests_seq (db s) + 1\<rparr>\<rparr>"
proof -
  show pg: "pool s = Pg_pool"
    using assms by (cases "pool s") (simp_all add: post_login_requests_mock)
  from assms obtain rows d where
    ins: "insert_login_request c u p (js_or ip (JStr ''127.0.0.1'')) (db s) = Some (rows, d)"
    and res: "(case rows of [] \<Rightarrow> (Json_undefined, s\<lparr>db := d\<rparr>)
               | row # _ \<Rightarrow> (Json_request row, s\<lparr>db := d\<rparr>)) = (Json_request r, s')"
    by (auto simp: post_login_requests_pg[OF pg] split: option.splits)
  from insert_login_request_Some[OF ins] obtain row where
    f: "rows = [row]" "status row = ''pending''"
      "created_at row = current_timestamp c" "updated_at row = current_timestamp c"
      "varchar 45 (prepareValue (js_or ip (JStr ''127.0.0.1''))) = Some (ip_address row)"
      "d = (db s)\<lparr>requests_tbl := requests_tbl (db s) @ [row],
                  requests_seq := requests_seq (db s) + 1\<rparr>"
    by blast
  from res f(1) have r: "row = r" and s': "s' = s\<lparr>db := d\<rparr>" by simp_all
  show "status r = ''pending''" using f(2) r by simp
  show "created_at r = current_timestamp c" using f(3) r by simp
  show "updated_at r = current_timestamp c" using f(4) r by simp
  show "varchar 45 (prepareValue (js_or ip (JStr ''127.0.0.1''))) = Some (ip_address r)"
    using f(5) r by simp
  show "s' = s\<lparr>db := (db s)\<lparr>requests_tbl := requests_tbl (db s) @ [r],
                           requests_seq := requests_seq (db s) + 1\<rparr>\<rparr>"
    using f(6) r s' by simp
qed

lemma post_login_requests_other:
  assumes "\<forall>r. fst (post_login_requests e u p ip t1 t2 c s) \<noteq> Json_request r"
  shows "snd (post_login_requests e u p ip t1 t2 c s) = s"
proof (cases "pool s")
  case Mock_pool
  then show ?thesis by (simp add: post_login_requests_mock)
next
  case Pg_pool
  show ?thesis
  proof (cases "insert_login_request c u p (js_or ip (JStr ''127.0.0.1'')) (db s)")
    case None
    with Pg_pool show ?thesis by (simp add: post_login_requests_pg)
  next
    case (Some a)
    then obtain rows d where
      ins: "insert_login_request c u p (js_or ip (JStr ''127.0.0.1'')) (db s) = Some (rows, d)"
      by (cases a) simp
    from insert_login_request_Some[OF ins] obtain row where "rows = [row]" by blast
    with ins Pg_pool assms show ?thesis by (simp add: post_login_requests_pg)
  qed
qed

lemma put_resolve_pg:
  "pool s = Pg_pool \<Longrightarrow>
   put_resolve outcome e i t1 t2 c1 c2 s =
     (case update_status c1 outcome i (db s) of
        None \<Rightarrow> (Http_500, s)
      | Some (rows, d1) \<Rightarrow>
          (case rows of
             [] \<Rightarrow> (Http_404, s\<lparr>db := d1\<rparr>)
           | request # _ \<Rightarrow>
               (case insert_login_attempt c2 (username request) (ip_address request)
                       outcome d1 of
                  None \<Rightarrow> (Http_500, s\<lparr>db := d1\<rparr>)
                | Some d2 \<Rightarrow> (Json_request request, s\<lparr>db := d2\<rparr>))))"
  by (auto simp: put_resolve_def using_mock_never pool_query_def
           split: option.splits list.splits)

lemma put_resolve_mock:
  "pool s = Mock_pool \<Longrightarrow> put_resolve outcome e i t1 t2 c1 c2 s = (Http_404, s)"
  by (simp add: put_resolve_def using_mock_never pool_query_def)

lemma get_pending_state: "snd (get_pending e c s) = s"
  by (simp add: get_pending_def split: option.splits)

lemma get_login_requests_state: "snd (get_login_requests e c s) = s"
  by (simp add: get_login_requests_def split: option.splits)

lemma get_login_request_state: "snd (get_login_request e i c s) = s"
  by (simp add: get_login_request_def split: option.splits list.splits)

lemma get_statistics_state: "snd (get_statistics e m c1 c2 c3 c4 c5 s) = s"
  by (simp add: get_statistics_def Let_def split: option.splits list.splits)

lemmas read_only =
  get_pending_state get_login_requests_state get_login_request_state get_statistics_state

subsection \<open>The pool and the invariant along a run\<close>

lemma post_login_requests_pool: "pool (snd (post_login_requests e u p ip t1 t2 c s)) = pool s"
  by (cases "pool s")
     (auto simp: post_login_requests_pg post_login_requests_mock
           split: option.splits list.splits)

lemma put_resolve_pool: "pool (snd (put_resolve outcome e i t1 t2 c1 c2 s)) = pool s"
  by (cases "pool s")
     (auto simp: put_resolve_pg put_resolve_mock split: option.splits list.splits)

lemma handle_pool: "pool (snd (handle e x s)) = pool s"
  by (cases x)
     (simp_all add: post_login_requests_pool put_resolve_pool put_approve_def put_reject_def
        read_only)

lemma run_pool: "pool (run e xs s) = pool s"
  by (induction xs arbitrary: s) (simp_all add: handle_pool)

lemma handle_mock: "pool s = Mock_pool \<Longrightarrow> snd (handle e x s) = s"
  by (cases x)
     (simp_all add: post_login_requests_mock put_resolve_mock put_approve_def put_reject_def
        read_only)

lemma run_mock: "pool s = Mock_pool \<Longrightarrow> run e xs s = s"
  by (induction xs arbitrary: s) (simp_all add: handle_mock)

lemma post_login_requests_inv:
  "db_inv (db s) \<Longrightarrow> db_inv (db (snd (post_login_requests e u p ip t1 t2 c s)))"
  by (cases "pool s")
     (auto simp: post_login_requests_pg post_login_requests_mock
           split: option.splits list.splits
           intro: insert_login_request_inv[OF _ js_or_truthy])

lemma put_resolve_inv:
  assumes "db_inv (db s)" "outcome = ''approved'' \<or> outcome = ''rejected''"
  shows "db_inv (db (snd (put_resolve outcome e i t1 t2 c1 c2 s)))"
  using assms
  by (cases "pool s")
     (auto simp: put_resolve_pg put_resolve_mock split: option.splits list.splits
           dest: update_status_inv insert_login_attempt_inv)

lemma handle_inv: "db_inv (db s) \<Longrightarrow> db_inv (db (snd (handle e x s)))"
  by (cases x)
     (simp_all add: post_login_requests_inv put_resolve_inv put_approve_def put_reject_def
        read_only)

lemma run_inv: "db_inv (db s) \<Longrightarrow> db_inv (db (run e xs s))"
  by (induction xs arbitrary: s) (simp_all add: handle_inv)

lemma boot_inv: "db_inv (db (boot b))"
  by (simp add: boot_def db_inv_def)

lemma reachable_inv: "db_inv (db (run e xs (boot b)))"
  by (rule run_inv[OF boot_inv])

lemma reachable_mock_empty:
  assumes "pool (run e xs (boot b)) = Mock_pool"
  shows "requests_tbl (db (run e xs (boot b))) = []"
    "attempts_tbl (db (run e xs (boot b))) = []"
proof -
  from assms have "pool (boot b) = Mock_pool" by (simp only: run_pool)
  then have "run e xs (boot b) = boot b" by (rule run_mock)
  then show "requests_tbl (db (run e xs (boot b))) = []"
    "attempts_tbl (db (run e xs (boot b))) = []"
    by (simp_all add: boot_def)
qed

lemma reachable_nonempty_pg:
  "r \<in> set (requests_tbl (db (run e xs (boot b)))) \<Longrightarrow> pool (run e xs (boot b)) = Pg_pool"
  by (cases "pool (run e xs (boot b))") (simp_all add: reachable_mock_empty)

subsection \<open>Resolving a request in a state that satisfies the invariant\<close>

lemma filter_unique_id:
  "distinct (map req_id rs) \<Longrightarrow> r \<in> set rs \<Longrightarrow> filter (\<lambda>x. req_id x = req_id r) rs = [r]"
proof (induction rs)
  case Nil
  then show ?case by simp
next
  case (Cons x rs)
  show ?case
  proof (cases "x = r")
    case True
    with Cons.prems have "\<forall>y\<in>set rs. req_id y \<noteq> req_id r"
      by (fastforce simp: image_iff)
    then have "filter (\<lambda>x. req_id x = req_id r) rs = []" by (simp add: filter_empty_conv)
    with True show ?thesis by simp
  next
    case False
    with Cons.prems have "r \<in> set rs" "req_id x \<noteq> req_id r" by auto
    with Cons show ?thesis by simp
  qed
qed

lemma update_absent:
  "\<forall>x\<in>set rs. req_id x \<noteq> i \<Longrightarrow> map (\<lambda>r. if req_id r = i then f r else r) rs = rs"
  by (induction rs) auto

lemma filter_update_present:
  assumes "distinct (map req_id rs)" "r \<in> set rs" "req_id r = i"
  shows "filter (\<lambda>x. req_id x = i)
           (map (\<lambda>r. if req_id r = i then r\<lparr>status := st, updated_at := t\<rparr> else r) rs) =
         [r\<lparr>status := st, updated_at := t\<rparr>]"
proof -
  let ?upd = "\<lambda>r. if req_id r = i then r\<lparr>status := st, updated_at := t\<rparr> else r"
  have d: "distinct (map req_id (map ?upd rs))"
    using assms(1) by (simp only: map_req_id_update)
  have m: "?upd r \<in> set (map ?upd rs)" using assms(2) by (simp only: set_map) (rule imageI)
  have "filter (\<lambda>x. req_id x = req_id (?upd r)) (map ?upd rs) = [?upd r]"
    by (rule filter_unique_id[OF d m])
  then show ?thesis using assms(3) by simp
qed

lemma put_resolve_down:
  "pool s = Pg_pool \<Longrightarrow> \<not> up c1 \<Longrightarrow> put_resolve outcome e i t1 t2 c1 c2 s = (Http_500, s)"
  by (simp add: put_resolve_pg update_status_def)

lemma put_resolve_absent:
  assumes "pool s = Pg_pool" "up c1" "\<forall>r\<in>set (requests_tbl (db s)). req_id r \<noteq> i"
  shows "put_resolve outcome e i t1 t2 c1 c2 s = (Http_404, s)"
  using assms by (simp add: put_resolve_pg update_status_def update_absent filter_empty_conv)

lemma put_resolve_unlogged:
  assumes "pool s = Pg_pool" "db_inv (db s)" "r \<in> set (requests_tbl (db s))" "req_id r = i"
    "up c1" "\<not> up c2"
  shows "put_resolve outcome e i t1 t2 c1 c2 s =
           (Http_500,
            s\<lparr>db := (db s)\<lparr>requests_tbl :=
                 map (\<lambda>r. if req_id r = i
                           then r\<lparr>status := outcome, updated_at := current_timestamp c1\<rparr>
                           else r) (requests_tbl (db s))\<rparr>\<rparr>)"
proof -
  have "distinct (map req_id (requests_tbl (db s)))" using assms(2) by (simp add: db_inv_def)
  from filter_update_present[OF this assms(3,4)] assms(1,5,6) show ?thesis
    by (simp add: put_resolve_pg update_status_def insert_login_attempt_def)
qed

lemma put_resolve_success:
  assumes "pool s = Pg_pool" "db_inv (db s)" "r \<in> set (requests_tbl (db s))" "req_id r = i"
    "up c1" "up c2"
    and "outcome = ''approved'' \<or> outcome = ''rejected''"
  shows "put_resolve outcome e i t1 t2 c1 c2 s =
           (Json_request (r\<lparr>status := outcome, updated_at := current_timestamp c1\<rparr>),
            s\<lparr>db := (db s)\<lparr>requests_tbl :=
                 map (\<lambda>r. if req_id r = i
                           then r\<lparr>status := outcome, updated_at := current_timestamp c1\<rparr>
                           else r) (requests_tbl (db s)),
                 attempts_tbl := attempts_tbl (db s) @
                   [\<lparr>att_id = attempts_seq (db s), att_username = username r,
                     att_ip_address = ip_address r, att_status = outcome,
                     att_created_at = current_timestamp c2\<rparr>],
                 attempts_seq := attempts_seq (db s) + 1\<rparr>\<rparr>)"
proof -
  have d: "distinct (map req_id (requests_tbl (db s)))" using assms(2) by (simp add: db_inv_def)
  have "row_ok r" using assms(2,3) by (simp add: db_inv_def list_all_iff)
  then have u: "varchar 255 (prepareValue (username r)) = Some (username r)"
    and a: "varchar 45 (prepareValue (ip_address r)) = Some (ip_address r)"
    by (simp_all add: row_ok_def varchar_prepare_fits)
  have o: "varchar 20 (JStr outcome) = Some (JStr outcome)"
    using assms(7) by (auto simp: varchar_def)
  from filter_update_present[OF d assms(3,4)] assms(1,5,6) u a o show ?thesis
    by (simp add: put_resolve_pg update_status_def insert_login_attempt_def)
qed

lemma put_resolve_Json:
  assumes "put_resolve outcome e i t1 t2 c1 c2 s = (Json_request r', s')"
  shows "pool s = Pg_pool" "up c1" "up c2" "\<exists>r\<in>set (requests_tbl (db s)). req_id r = i"
proof -
  show pg: "pool s = Pg_pool"
    using assms by (cases "pool s") (simp_all add: put_resolve_mock)
  from assms obtain rows d1 request rest d2 where
    u: "update_status c1 outcome i (db s) = Some (rows, d1)" and
    r: "rows = request # rest" and
    a: "insert_login_attempt c2 (username request) (ip_address request) outcome d1 = Some d2"
    by (auto simp: put_resolve_pg[OF pg] split: option.splits list.splits)
  show "up c1" using update_status_Some(1)[OF u] .
  show "up c2" using insert_login_attempt_Some(1)[OF a] .
  have "request \<in> set rows" using r by simp
  then have "request \<in> set (filter (\<lambda>r. req_id r = i) (requests_tbl d1))"
    by (simp only: update_status_Some(3)[OF u])
  then have "i \<in> set (map req_id (requests_tbl d1))" by auto
  then have "i \<in> set (map req_id (requests_tbl (db s)))"
    unfolding update_status_Some(2)[OF u] by (simp only: map_req_id_update)
  then show "\<exists>r\<in>set (requests_tbl (db s)). req_id r = i" by auto
qed

text \<open>
  A resolution that is not answered with the request leaves the attempts as they were.
\<close>

lemma put_resolve_failed:
  assumes "db_inv (db s)" "outcome = ''approved'' \<or> outcome = ''rejected''"
    and "\<forall>q. fst (put_resolve outcome e i t1 t2 c1 c2 s) \<noteq> Json_request q"
  shows "attempts_tbl (db (snd (put_resolve outcome e i t1 t2 c1 c2 s))) = attempts_tbl (db s)"
proof (cases "pool s")
  case Mock_pool
  then show ?thesis by (simp add: put_resolve_mock)
next
  case Pg_pool
  show ?thesis
  proof (cases "up c1")
    case False
    with Pg_pool show ?thesis by (simp add: put_resolve_down)
  next
    case True
    show ?thesis
    proof (cases "\<exists>r\<in>set (requests_tbl (db s)). req_id r = i")
      case False
      with Pg_pool True show ?thesis by (simp add: put_resolve_absent)
    next
      case ex: True
      then obtain r where r: "r \<in> set (requests_tbl (db s))" "req_id r = i" by blast
      show ?thesis
      proof (cases "up c2")
        case False
        from put_resolve_unlogged[OF Pg_pool assms(1) r True False] show ?thesis by simp
      next
        case c2: True
        from put_resolve_success[OF Pg_pool assms(1) r True c2 assms(2), of e t1 t2] assms(3)
        show ?thesis by simp
      qed
    qed
  qed
qed

subsection \<open>Evaluation, ordering and the statistics\<close>

lemmas handler_defs =
  using_mock_def strict_eq_def env_get_def js_or_def boot_def Let_def varchar_def
  pool_query_def
  insert_login_request_def order_by_created_at_desc_def select_by_status_def select_all_def
  select_by_id_def update_status_def insert_login_attempt_def select_count_def
  post_login_requests_def get_pending_def get_login_requests_def get_login_request_def
  put_resolve_def put_approve_def put_reject_def get_statistics_def
  stored_requests_def stored_attempts_def attempts_of_def resolved_of_def

lemma order_by_created_at_desc_sorted: "created_at_desc (order_by_created_at_desc rows)"
proof -
  have "sorted (map created_at (sort_key created_at rows))" by (rule sorted_sort_key)
  then have "sorted_wrt (\<lambda>a b. created_at a \<le> created_at b) (sort_key created_at rows)"
    by (simp add: sorted_map)
  then show ?thesis
    by (simp add: created_at_desc_def order_by_created_at_desc_def sorted_wrt_rev)
qed

lemma order_by_created_at_desc_mset: "mset (order_by_created_at_desc rows) = mset rows"
  by (simp add: order_by_created_at_desc_def)

lemma order_by_created_at_desc_length: "length (order_by_created_at_desc rows) = length rows"
  by (simp add: order_by_created_at_desc_def)

lemma get_login_requests_Json:
  assumes "get_login_requests e c (run e xs (boot b)) = (Json_requests rs, s')"
  shows "rs = order_by_created_at_desc (requests_tbl (db (run e xs (boot b))))"
proof (cases "pool (run e xs (boot b))")
  case Pg_pool
  with assms show ?thesis
    by (auto simp: get_login_requests_def using_mock_never select_all_def pool_query_def
             split: option.splits if_splits)
next
  case Mock_pool
  with assms have "rs = []"
    by (auto simp: get_login_requests_def using_mock_never pool_query_def)
  with reachable_mock_empty(1)[OF Mock_pool] show ?thesis
    by (simp add: order_by_created_at_desc_def)
qed

lemma status_partition:
  "list_all (\<lambda>r. status r = ''pending'' \<or> status r = ''approved'' \<or> status r = ''rejected'')
     rs \<Longrightarrow>
   length (filter (\<lambda>r. status r = ''pending'') rs) +
   length (filter (\<lambda>r. status r = ''approved'') rs) +
   length (filter (\<lambda>r. status r = ''rejected'') rs) = length rs"
  by (induction rs) auto

lemma get_statistics_Json:
  assumes "get_statistics e m c1 c2 c3 c4 c5 s = (Json_statistics st, s')"
  shows "total st = length (requests_tbl (db s))"
    "approved st = length (filter (\<lambda>r. status r = ''approved'') (requests_tbl (db s)))"
    "rejected st = length (filter (\<lambda>r. status r = ''rejected'') (requests_tbl (db s)))"
    "pending st = length (filter (\<lambda>r. status r = ''pending'') (requests_tbl (db s)))"
    "today st = length (filter (\<lambda>r. m \<le> created_at r) (requests_tbl (db s)))"
    "s' = s"
proof -
  have pg: "pool s = Pg_pool"
    using assms
    by (cases "pool s") (simp_all add: get_statistics_def using_mock_never pool_query_def)
  from assms show "total st = length (requests_tbl (db s))"
    "approved st = length (filter (\<lambda>r. status r = ''approved'') (requests_tbl (db s)))"
    "rejected st = length (filter (\<lambda>r. status r = ''rejected'') (requests_tbl (db s)))"
    "pending st = length (filter (\<lambda>r. status r = ''pending'') (requests_tbl (db s)))"
    "today st = length (filter (\<lambda>r. m \<le> created_at r) (requests_tbl (db s)))"
    "s' = s"
    by (auto simp: get_statistics_def using_mock_never select_count_def pool_query_def pg
             split: if_splits)
qed

subsection \<open>Counting attempts against resolved requests\<close>

lemma count_update_pending:
  assumes "distinct (map req_id rs)" "r \<in> set rs" "req_id r = i" "status r = ''pending''"
    "st \<noteq> ''pending''"
  shows "length (filter (\<lambda>x. username x = u \<and> status x \<noteq> ''pending'')
           (map (\<lambda>r. if req_id r = i then r\<lparr>status := st, updated_at := t\<rparr> else r) rs)) =
         length (filter (\<lambda>x. username x = u \<and> status x \<noteq> ''pending'') rs) +
         (if username r = u then 1 else 0)"
  using assms(1,2)
proof (induction rs)
  case Nil
  then show ?case by simp
next
  case (Cons x rs)
  show ?case
  proof (cases "x = r")
    case True
    with Cons.prems have "\<forall>y\<in>set rs. req_id y \<noteq> i"
      using assms(3) by (fastforce simp: image_iff)
    then have "map (\<lambda>r. if req_id r = i then r\<lparr>status := st, updated_at := t\<rparr> else r) rs = rs"
      by (rule update_absent)
    with True assms(3,4,5) show ?thesis by simp
  next
    case False
    with Cons.prems have "r \<in> set rs" "req_id x \<noteq> i" using assms(3) by auto
    with Cons show ?thesis by simp
  qed
qed

lemma resolve_counts:
  assumes "db_inv (db s)" "outcome = ''approved'' \<or> outcome = ''rejected''"
    and "list_all (\<lambda>r. req_id r \<noteq> i \<or> status r = ''pending'') (stored_requests e s)"
  shows "attempts_of e u (snd (put_resolve outcome e i t1 t2 c1 c2 s)) + resolved_of e u s \<le>
         resolved_of e u (snd (put_resolve outcome e i t1 t2 c1 c2 s)) + attempts_of e u s \<and>
         (up c2 \<longrightarrow>
          attempts_of e u (snd (put_resolve outcome e i t1 t2 c1 c2 s)) + resolved_of e u s =
          resolved_of e u (snd (put_resolve outcome e i t1 t2 c1 c2 s)) + attempts_of e u s)"
proof (cases "pool s")
  case Mock_pool
  then show ?thesis by (simp add: put_resolve_mock)
next
  case Pg_pool
  show ?thesis
  proof (cases "up c1")
    case False
    with Pg_pool show ?thesis by (simp add: put_resolve_down)
  next
    case True
    show ?thesis
    proof (cases "\<exists>r\<in>set (requests_tbl (db s)). req_id r = i")
      case False
      with Pg_pool True show ?thesis by (simp add: put_resolve_absent)
    next
      case ex: True
      then obtain r where r: "r \<in> set (requests_tbl (db s))" "req_id r = i" by blast
      have pend: "status r = ''pending''"
        using assms(3) r by (auto simp: list_all_iff stored_requests_db)
      have d: "distinct (map req_id (requests_tbl (db s)))"
        using assms(1) by (simp add: db_inv_def)
      have ne: "outcome \<noteq> ''pending''" using assms(2) by auto
      note cnt = count_update_pending[OF d r pend ne, of u "current_timestamp c1"]
      show ?thesis
      proof (cases "up c2")
        case False
        from put_resolve_unlogged[OF Pg_pool assms(1) r True False, of outcome e t1 t2] cnt False
        show ?thesis
          by (simp add: attempts_of_def resolved_of_def stored_requests_db stored_attempts_db)
      next
        case c2: True
        from put_resolve_success[OF Pg_pool assms(1) r True c2 assms(2), of e t1 t2] cnt
        show ?thesis
          by (simp add: attempts_of_def resolved_of_def stored_requests_db stored_attempts_db)
      qed
    qed
  qed
qed

lemma submit_counts:
  "attempts_of e u (snd (post_login_requests e un p ip t1 t2 c s)) = attempts_of e u s \<and>
   resolved_of e u (snd (post_login_requests e un p ip t1 t2 c s)) = resolved_of e u s"
proof (cases "\<exists>r. fst (post_login_requests e un p ip t1 t2 c s) = Json_request r")
  case False
  then have "snd (post_login_requests e un p ip t1 t2 c s) = s"
    by (simp add: post_login_requests_other)
  then show ?thesis by simp
next
  case True
  then obtain r s' where h: "post_login_requests e un p ip t1 t2 c s = (Json_request r, s')"
    by (cases "post_login_requests e un p ip t1 t2 c s") auto
  note f = post_login_requests_Json(2,6)[OF h]
  from h f(1) show ?thesis
    by (simp add: f(2) attempts_of_def resolved_of_def stored_requests_db stored_attempts_db)
qed

lemma step_counts:
  assumes "db_inv (db s)" "first_resolution e x s"
  shows "attempts_of e u (snd (handle e x s)) + resolved_of e u s \<le>
         resolved_of e u (snd (handle e x s)) + attempts_of e u s \<and>
         (attempt_insert_up x \<longrightarrow>
          attempts_of e u (snd (handle e x s)) + resolved_of e u s =
          resolved_of e u (snd (handle e x s)) + attempts_of e u s)"
proof (cases x)
  case (Post_login_requests un p ip t1 t2 c)
  with submit_counts[of e u un p ip t1 t2 c s] show ?thesis by simp
next
  case (Put_approve j u1 u2 d1 d2)
  with assms resolve_counts[of s "''approved''" j e u u1 u2 d1 d2] show ?thesis
    by (simp add: put_approve_def)
next
  case (Put_reject j u1 u2 d1 d2)
  with assms resolve_counts[of s "''rejected''" j e u u1 u2 d1 d2] show ?thesis
    by (simp add: put_reject_def)
qed (simp_all add: read_only)

lemma run_counts:
  assumes "db_inv (db s)" "no_reresolution e xs s"
  shows "attempts_of e u (run e xs s) + resolved_of e u s \<le>
         resolved_of e u (run e xs s) + attempts_of e u s \<and>
         (list_all attempt_insert_up xs \<longrightarrow>
          attempts_of e u (run e xs s) + resolved_of e u s =
          resolved_of e u (run e xs s) + attempts_of e u s)"
  using assms
proof (induction xs arbitrary: s)
  case Nil
  then show ?case by simp
next
  case (Cons x xs)
  let ?t = "snd (handle e x s)"
  from Cons.prems have f: "first_resolution e x s" and n: "no_reresolution e xs ?t" by simp_all
  have inv: "db_inv (db ?t)" using Cons.prems(1) by (rule handle_inv)
  note st = step_counts[OF Cons.prems(1) f, of u]
  note ih = Cons.IH[OF inv n]
  from st ih show ?case by auto
qed

section \<open>The claims of the specification\<close>

text \<open>
  Claim C1. With no \<^verbatim>\<open>DATABASE_URL\<close> and outside production every operation should be
  served by the process-local store, whose counter starts at 1. The guard is false
  there: the submission of \<open>submit_alice\<close> is written to the table of the pool (both
  timestamps are the store's 7, not the 0 of the handler's own clock, and \<^verbatim>\<open>mockData\<close>
  stays as it was), and it is answered with status 500 when the pool does not reach its
  store. After a start-up in which \<^verbatim>\<open>new Pool\<close> threw, the mock pool object answers it
  with no rows, and nothing is stored.
\<close>

theorem mock_guard_false_without_database_url:
  "\<not> using_mock unset_env \<and>
   fst (handle unset_env submit_alice (boot False)) = Json_request (alice_request ''pending'' 7) \<and>
   mockData (snd (handle unset_env submit_alice (boot False))) = mockData (boot False) \<and>
   requests_tbl (db (snd (handle unset_env submit_alice (boot False)))) =
     [alice_request ''pending'' 7] \<and>
   handle unset_env
     (Post_login_requests (JStr ''alice'') (JStr ''pw1'') JUndefined 0 0 store_down)
     (boot False) = (Http_500, boot False) \<and>
   handle unset_env submit_alice (boot True) = (Json_undefined, boot True)"
  by (simp add: handler_defs)

text \<open>
  Claim C2, as stated: in every reachable state the attempts recorded for a username are
  at most the requests of that username that have left \<^verbatim>\<open>pending\<close>. Approving the same
  request twice records two attempts for one such request.
\<close>

theorem attempts_exceed_resolved_after_reapproval:
  "\<not> attempts_of unset_env (JStr ''alice'')
        (run unset_env
           [submit_alice, Put_approve 1 0 0 (store_at 8) (store_at 8),
            Put_approve 1 0 0 (store_at 9) (store_at 9)] (boot False)) \<le>
      resolved_of unset_env (JStr ''alice'')
        (run unset_env
           [submit_alice, Put_approve 1 0 0 (store_at 8) (store_at 8),
            Put_approve 1 0 0 (store_at 9) (store_at 9)] (boot False))"
  by (simp add: handler_defs)

text \<open>
  Claim C2, amended: in every state reached without resolving a request again, the
  attempts recorded for a username are at most the requests of that username that have
  left \<^verbatim>\<open>pending\<close>, and the two counts are equal when every \<^verbatim>\<open>INSERT\<close> into
  \<^verbatim>\<open>login_attempts\<close> reached the store.
\<close>

theorem attempts_bounded_without_reresolution:
  assumes "no_reresolution e xs (boot b)"
  shows "attempts_of e u (run e xs (boot b)) \<le> resolved_of e u (run e xs (boot b)) \<and>
         (list_all attempt_insert_up xs \<longrightarrow>
          attempts_of e u (run e xs (boot b)) = resolved_of e u (run e xs (boot b)))"
proof -
  have z: "attempts_of e u (boot b) = 0" "resolved_of e u (boot b) = 0"
    by (simp_all add: attempts_of_def resolved_of_def stored_requests_db stored_attempts_db
          boot_def)
  from run_counts[OF boot_inv assms, of u] show ?thesis by (simp add: z)
qed

theorem attempts_bounded_without_reresolution_witness:
  "no_reresolution unset_env
     [submit_alice, submit_bob, Put_approve 1 0 0 (store_at 10) (store_at 10),
      Put_reject 2 0 0 (store_at 12) store_down] (boot False) \<and>
   attempts_of unset_env (JStr ''bob'')
     (run unset_env
        [submit_alice, submit_bob, Put_approve 1 0 0 (store_at 10) (store_at 10),
         Put_reject 2 0 0 (store_at 12) store_down] (boot False)) \<le>
   resolved_of unset_env (JStr ''bob'')
     (run unset_env
        [submit_alice, submit_bob, Put_approve 1 0 0 (store_at 10) (store_at 10),
         Put_reject 2 0 0 (store_at 12) store_down] (boot False)) \<and>
   no_reresolution unset_env
     [submit_alice, submit_bob, Put_approve 1 0 0 (store_at 10) (store_at 10)] (boot False) \<and>
   list_all attempt_insert_up
     [submit_alice, submit_bob, Put_approve 1 0 0 (store_at 10) (store_at 10)] \<and>
   attempts_of unset_env (JStr ''alice'')
     (run unset_env
        [submit_alice, submit_bob, Put_approve 1 0 0 (store_at 10) (store_at 10)]
        (boot False)) =
   resolved_of unset_env (JStr ''alice'')
     (run unset_env
        [submit_alice, submit_bob, Put_approve 1 0 0 (store_at 10) (store_at 10)]
        (boot False))"
proof -
  have h1: "no_reresolution unset_env
     [submit_alice, submit_bob, Put_approve 1 0 0 (store_at 10) (store_at 10),
      Put_reject 2 0 0 (store_at 12) store_down] (boot False)"
    by (simp add: handler_defs)
  have h2: "no_reresolution unset_env
     [submit_alice, submit_bob, Put_approve 1 0 0 (store_at 10) (store_at 10)] (boot False)"
    by (simp add: handler_defs)
  have h3: "list_all attempt_insert_up
     [submit_alice, submit_bob, Put_approve 1 0 0 (store_at 10) (store_at 10)]"
    by simp
  note a = attempts_bounded_without_reresolution [OF h1, of "JStr ''bob''", THEN conjunct1]
  note b = attempts_bounded_without_reresolution
    [OF h2, of "JStr ''alice''", THEN conjunct2, THEN mp, OF h3]
  from h1 a h2 h3 b show ?thesis by (intro conjI)
qed

text \<open>
  Claim C3. Resolving a request that is already \<^verbatim>\<open>approved\<close> or \<^verbatim>\<open>rejected\<close> does not
  fail: when both statements reach the store, the handler answers with the request, its
  status the new outcome and its \<^verbatim>\<open>updated_at\<close> the time of the \<^verbatim>\<open>UPDATE\<close>, that record is
  among the stored ones, and one more attempt is appended.
\<close>

theorem reresolve_terminal_succeeds:
  assumes "r \<in> set (stored_requests e (run e xs (boot b)))" and "req_id r = i"
    and "status r = ''approved'' \<or> status r = ''rejected''"
    and "outcome = ''approved'' \<or> outcome = ''rejected''"
    and "up c1" and "up c2"
  shows "\<exists>r' s'. put_resolve outcome e i t1 t2 c1 c2 (run e xs (boot b)) =
                   (Json_request r', s') \<and>
           req_id r' = i \<and> status r' = outcome \<and> updated_at r' = current_timestamp c1 \<and>
           r' \<in> set (stored_requests e s') \<and>
           (\<exists>a. stored_attempts e s' = stored_attempts e (run e xs (boot b)) @ [a] \<and>
                att_status a = outcome \<and> att_username a = username r \<and>
                att_ip_address a = ip_address r)"
proof -
  let ?s = "run e xs (boot b)"
  have inv: "db_inv (db ?s)" by (rule reachable_inv)
  have mem: "r \<in> set (requests_tbl (db ?s))" using assms(1) by (simp add: stored_requests_db)
  have pg: "pool ?s = Pg_pool" using mem by (rule reachable_nonempty_pg)
  note ok = put_resolve_success[OF pg inv mem assms(2,5,6,4), of e t1 t2]
  have "r\<lparr>status := outcome, updated_at := current_timestamp c1\<rparr> \<in>
        set (map (\<lambda>r. if req_id r = i
                   then r\<lparr>status := outcome, updated_at := current_timestamp c1\<rparr>
                   else r) (requests_tbl (db ?s)))"
    using mem assms(2) by (simp only: set_map) (rule image_eqI[where x = r], simp_all)
  with ok assms(2) show ?thesis
    by (simp add: stored_requests_db stored_attempts_db)
qed

theorem reresolve_terminal_succeeds_witness:
  "alice_request ''approved'' 8 \<in>
     set (stored_requests unset_env
            (run unset_env [submit_alice, Put_approve 1 0 0 (store_at 8) (store_at 8)]
               (boot False))) \<and>
   (\<exists>r' s'. put_resolve ''rejected'' unset_env 1 0 0 (store_at 9) (store_at 9)
              (run unset_env [submit_alice, Put_approve 1 0 0 (store_at 8) (store_at 8)]
                 (boot False)) = (Json_request r', s') \<and>
           status r' = ''rejected'' \<and> updated_at r' = 9 \<and>
           r' \<in> set (stored_requests unset_env s') \<and>
           (\<exists>a. stored_attempts unset_env s' =
                  stored_attempts unset_env
                    (run unset_env
                       [submit_alice, Put_approve 1 0 0 (store_at 8) (store_at 8)]
                       (boot False)) @ [a] \<and>
                att_status a = ''rejected'' \<and> att_username a = JStr ''alice'' \<and>
                att_ip_address a = JStr ''127.0.0.1''))"
proof -
  have h1: "alice_request ''approved'' 8 \<in>
     set (stored_requests unset_env
            (run unset_env [submit_alice, Put_approve 1 0 0 (store_at 8) (store_at 8)]
               (boot False)))"
    by (simp add: handler_defs)
  have h2: "req_id (alice_request ''approved'' 8) = 1" by simp
  have h3: "status (alice_request ''approved'' 8) = ''approved'' \<or>
            status (alice_request ''approved'' 8) = ''rejected''" by simp
  have h4: "''rejected'' = ''approved'' \<or> ''rejected'' = ''rejected''" by simp
  have h5: "up (store_at 9)" by simp
  from reresolve_terminal_succeeds [OF h1 h2 h3 h4 h5 h5, of 0 0]
  obtain r' s' where
    "put_resolve ''rejected'' unset_env 1 0 0 (store_at 9) (store_at 9)
       (run unset_env [submit_alice, Put_approve 1 0 0 (store_at 8) (store_at 8)]
          (boot False)) = (Json_request r', s')"
    "status r' = ''rejected''" "updated_at r' = 9"
    "r' \<in> set (stored_requests unset_env s')"
    "\<exists>a. stored_attempts unset_env s' =
           stored_attempts unset_env
             (run unset_env [submit_alice, Put_approve 1 0 0 (store_at 8) (store_at 8)]
                (boot False)) @ [a] \<and>
         att_status a = ''rejected'' \<and> att_username a = JStr ''alice'' \<and>
         att_ip_address a = JStr ''127.0.0.1''"
    by auto
  with h1 show ?thesis by blast
qed

text \<open>
  Claim C4. A submission that succeeds returns a request with status \<^verbatim>\<open>pending\<close>, with
  \<^verbatim>\<open>created_at\<close> equal to \<^verbatim>\<open>updated_at\<close>, and with \<^verbatim>\<open>ip_address\<close> \<^verbatim>\<open>127.0.0.1\<close> when
  \<^verbatim>\<open>ipAddress\<close> was omitted; the stored requests are the ones before it followed by the
  request returned.
\<close>

theorem submit_pending_equal_timestamps_default_ip:
  assumes "post_login_requests e u p ip t1 t2 c s = (Json_request r, s')"
  shows "status r = ''pending'' \<and> created_at r = updated_at r \<and>
         (ip = JUndefined \<longrightarrow> ip_address r = JStr ''127.0.0.1'') \<and>
         stored_requests e s' = stored_requests e s @ [r]"
proof -
  note f = post_login_requests_Json[OF assms]
  have "ip_address r = JStr ''127.0.0.1''" if "ip = JUndefined"
    using f(5) that by (simp add: js_or_def varchar_def)
  then show ?thesis
    using f(2,3,4) by (simp add: f(6) stored_requests_db)
qed

theorem submit_pending_equal_timestamps_default_ip_witness:
  "post_login_requests production_env (JStr ''alice'') (JStr ''pw1'') JUndefined 0 0
     (store_at 7) (boot False) =
     (Json_request (alice_request ''pending'' 7),
      run production_env [submit_alice] (boot False)) \<and>
   status (alice_request ''pending'' 7) = ''pending'' \<and>
   created_at (alice_request ''pending'' 7) = updated_at (alice_request ''pending'' 7) \<and>
   ip_address (alice_request ''pending'' 7) = JStr ''127.0.0.1'' \<and>
   stored_requests production_env (run production_env [submit_alice] (boot False)) =
     stored_requests production_env (boot False) @ [alice_request ''pending'' 7]"
proof -
  have h: "post_login_requests production_env (JStr ''alice'') (JStr ''pw1'') JUndefined 0 0
     (store_at 7) (boot False) =
     (Json_request (alice_request ''pending'' 7),
      run production_env [submit_alice] (boot False))"
    by (simp add: handler_defs)
  from h submit_pending_equal_timestamps_default_ip [OF h] show ?thesis by blast
qed

text \<open>
  Claim C5. A resolution that succeeds appends exactly one attempt, whose status is the
  outcome and whose \<^verbatim>\<open>username\<close> and \<^verbatim>\<open>ip_address\<close> are those of the request resolved
  (before the resolution and as returned); a request to any other route, and a
  resolution answered with an error, leave the attempts as they were.
\<close>

theorem resolve_appends_exactly_one_attempt:
  "((outcome = ''approved'' \<or> outcome = ''rejected'') \<and>
    put_resolve outcome e i t1 t2 c1 c2 (run e xs (boot b)) = (Json_request r', s') \<longrightarrow>
      (\<exists>r a. r \<in> set (stored_requests e (run e xs (boot b))) \<and> req_id r = i \<and>
             stored_attempts e s' = stored_attempts e (run e xs (boot b)) @ [a] \<and>
             att_status a = outcome \<and>
             att_username a = username r \<and> att_ip_address a = ip_address r \<and>
             username r' = username r \<and> ip_address r' = ip_address r)) \<and>
   (\<not> is_resolve x \<or> (\<forall>q. fst (handle e x (run e xs (boot b))) \<noteq> Json_request q) \<longrightarrow>
      stored_attempts e (snd (handle e x (run e xs (boot b)))) =
      stored_attempts e (run e xs (boot b)))"
proof (intro conjI impI)
  let ?s = "run e xs (boot b)"
  have inv: "db_inv (db ?s)" by (rule reachable_inv)
  {
    assume a: "(outcome = ''approved'' \<or> outcome = ''rejected'') \<and>
      put_resolve outcome e i t1 t2 c1 c2 ?s = (Json_request r', s')"
    then have o: "outcome = ''approved'' \<or> outcome = ''rejected''"
      and p: "put_resolve outcome e i t1 t2 c1 c2 ?s = (Json_request r', s')" by simp_all
    from put_resolve_Json[OF p] obtain r where
      r: "r \<in> set (requests_tbl (db ?s))" "req_id r = i" and u: "up c1" "up c2"
      and pg: "pool ?s = Pg_pool" by blast
    from put_resolve_success[OF pg inv r u o, of e t1 t2] p r
    show "\<exists>r a. r \<in> set (stored_requests e ?s) \<and> req_id r = i \<and>
             stored_attempts e s' = stored_attempts e ?s @ [a] \<and>
             att_status a = outcome \<and>
             att_username a = username r \<and> att_ip_address a = ip_address r \<and>
             username r' = username r \<and> ip_address r' = ip_address r"
      by (auto simp: stored_requests_db stored_attempts_db)
  }
  assume h: "\<not> is_resolve x \<or> (\<forall>q. fst (handle e x ?s) \<noteq> Json_request q)"
  show "stored_attempts e (snd (handle e x ?s)) = stored_attempts e ?s"
  proof (cases x)
    case (Post_login_requests u p ip t1 t2 c)
    show ?thesis
    proof (cases "\<exists>q. fst (post_login_requests e u p ip t1 t2 c ?s) = Json_request q")
      case False
      then have "snd (post_login_requests e u p ip t1 t2 c ?s) = ?s"
        by (simp add: post_login_requests_other)
      with Post_login_requests show ?thesis by simp
    next
      case True
      then obtain q s' where
        q: "post_login_requests e u p ip t1 t2 c ?s = (Json_request q, s')"
        by (cases "post_login_requests e u p ip t1 t2 c ?s") auto
      from Post_login_requests q show ?thesis
        by (simp add: post_login_requests_Json(6)[OF q] stored_attempts_db)
    qed
  next
    case (Put_approve j u1 u2 d1 d2)
    with h put_resolve_failed[OF inv, of "''approved''" e j u1 u2 d1 d2] show ?thesis
      by (simp add: stored_attempts_db put_approve_def)
  next
    case (Put_reject j u1 u2 d1 d2)
    with h put_resolve_failed[OF inv, of "''rejected''" e j u1 u2 d1 d2] show ?thesis
      by (simp add: stored_attempts_db put_reject_def)
  qed (simp_all add: read_only)
qed

theorem resolve_appends_exactly_one_attempt_witness:
  "put_resolve ''approved'' unset_env 1 0 0 (store_at 8) (store_at 8)
     (run unset_env [submit_alice] (boot False)) =
     (Json_request (alice_request ''approved'' 8),
      run unset_env [submit_alice, Put_approve 1 0 0 (store_at 8) (store_at 8)]
        (boot False)) \<and>
   (\<exists>r a. r \<in> set (stored_requests unset_env (run unset_env [submit_alice] (boot False))) \<and>
          req_id r = 1 \<and>
          stored_attempts unset_env
            (run unset_env [submit_alice, Put_approve 1 0 0 (store_at 8) (store_at 8)]
               (boot False)) =
          stored_attempts unset_env (run unset_env [submit_alice] (boot False)) @ [a] \<and>
          att_status a = ''approved'' \<and>
          att_username a = username r \<and> att_ip_address a = ip_address r \<and>
          username (alice_request ''approved'' 8) = username r \<and>
          ip_address (alice_request ''approved'' 8) = ip_address r) \<and>
   \<not> is_resolve submit_bob \<and>
   stored_attempts unset_env
     (snd (handle unset_env submit_bob (run unset_env [submit_alice] (boot False)))) =
   stored_attempts unset_env (run unset_env [submit_alice] (boot False))"
proof -
  have h1: "put_resolve ''approved'' unset_env 1 0 0 (store_at 8) (store_at 8)
     (run unset_env [submit_alice] (boot False)) =
     (Json_request (alice_request ''approved'' 8),
      run unset_env [submit_alice, Put_approve 1 0 0 (store_at 8) (store_at 8)]
        (boot False))"
    by (simp add: handler_defs)
  have h2: "\<not> is_resolve submit_bob" by simp
  note t = resolve_appends_exactly_one_attempt
    [of "''approved''" unset_env 1 0 0 "store_at 8" "store_at 8" "[submit_alice]" False
        "alice_request ''approved'' 8"
        "run unset_env [submit_alice, Put_approve 1 0 0 (store_at 8) (store_at 8)] (boot False)"
        submit_bob]
  from t h1 have a:
    "\<exists>r a. r \<in> set (stored_requests unset_env (run unset_env [submit_alice] (boot False))) \<and>
          req_id r = 1 \<and>
          stored_attempts unset_env
            (run unset_env [submit_alice, Put_approve 1 0 0 (store_at 8) (store_at 8)]
               (boot False)) =
          stored_attempts unset_env (run unset_env [submit_alice] (boot False)) @ [a] \<and>
          att_status a = ''approved'' \<and>
          att_username a = username r \<and> att_ip_address a = ip_address r \<and>
          username (alice_request ''approved'' 8) = username r \<and>
          ip_address (alice_request ''approved'' 8) = ip_address r"
    by blast
  from t h2 have b:
    "stored_attempts unset_env
       (snd (handle unset_env submit_bob (run unset_env [submit_alice] (boot False)))) =
     stored_attempts unset_env (run unset_env [submit_alice] (boot False))"
    by blast
  from h1 a h2 b show ?thesis by (intro conjI)
qed

text \<open>
  Claim C6. In a reachable state with at least two stored requests, the list of all
  requests is answered in descending order of \<^verbatim>\<open>created_at\<close>, and it holds the stored
  requests, each as often as it is stored.
\<close>

theorem list_all_created_at_descending:
  assumes "2 \<le> length (stored_requests e (run e xs (boot b)))"
    and "get_login_requests e c (run e xs (boot b)) = (Json_requests rs, s')"
  shows "created_at_desc rs \<and> mset rs = mset (stored_requests e (run e xs (boot b)))"
proof -
  from assms(2) have "rs = order_by_created_at_desc (requests_tbl (db (run e xs (boot b))))"
    by (rule get_login_requests_Json)
  then show ?thesis
    by (simp add: order_by_created_at_desc_sorted order_by_created_at_desc_mset
          stored_requests_db)
qed

theorem list_all_created_at_descending_witness:
  "2 \<le> length (stored_requests unset_env (run unset_env [submit_alice, submit_bob] (boot False))) \<and>
   get_login_requests unset_env (store_at 10)
     (run unset_env [submit_alice, submit_bob] (boot False)) =
     (Json_requests [bob_request, alice_request ''pending'' 7],
      run unset_env [submit_alice, submit_bob] (boot False)) \<and>
   created_at_desc [bob_request, alice_request ''pending'' 7] \<and>
   mset [bob_request, alice_request ''pending'' 7] =
     mset (stored_requests unset_env (run unset_env [submit_alice, submit_bob] (boot False)))"
proof -
  have h1: "2 \<le> length (stored_requests unset_env
                          (run unset_env [submit_alice, submit_bob] (boot False)))"
    by (simp add: handler_defs)
  have h2: "get_login_requests unset_env (store_at 10)
     (run unset_env [submit_alice, submit_bob] (boot False)) =
     (Json_requests [bob_request, alice_request ''pending'' 7],
      run unset_env [submit_alice, submit_bob] (boot False))"
    by (simp add: handler_defs)
  note a = list_all_created_at_descending [OF h1 h2, THEN conjunct1]
  note b = list_all_created_at_descending [OF h1 h2, THEN conjunct2]
  from h1 h2 a b show ?thesis by (intro conjI)
qed

text \<open>
  Claim C7. In every reachable state the statistics answered satisfy
  \<open>pending + approved + rejected = total\<close>.
\<close>

theorem statistics_counts_add_up:
  assumes "get_statistics e m c1 c2 c3 c4 c5 (run e xs (boot b)) = (Json_statistics st, s')"
  shows "pending st + approved st + rejected st = total st"
proof -
  have "db_inv (db (run e xs (boot b)))" by (rule reachable_inv)
  then have "list_all (\<lambda>r. status r = ''pending'' \<or> status r = ''approved'' \<or>
                          status r = ''rejected'')
               (requests_tbl (db (run e xs (boot b))))"
    by (simp add: db_inv_def row_ok_def list_all_iff)
  from status_partition[OF this] show ?thesis
    by (simp add: get_statistics_Json(1-4)[OF assms])
qed

theorem statistics_counts_add_up_witness:
  "get_statistics unset_env 0 (store_at 14) (store_at 14) (store_at 14) (store_at 14)
     (store_at 14)
     (run unset_env
        [submit_alice, submit_bob, submit_carol,
         Put_approve 1 0 0 (store_at 12) (store_at 12),
         Put_reject 2 0 0 (store_at 13) (store_at 13)] (boot False)) =
     (Json_statistics \<lparr>total = 3, approved = 1, rejected = 1, pending = 1, today = 3\<rparr>,
      run unset_env
        [submit_alice, submit_bob, submit_carol,
         Put_approve 1 0 0 (store_at 12) (store_at 12),
         Put_reject 2 0 0 (store_at 13) (store_at 13)] (boot False)) \<and>
   pending \<lparr>total = 3, approved = 1, rejected = 1, pending = 1, today = 3\<rparr> +
   approved \<lparr>total = 3, approved = 1, rejected = 1, pending = 1, today = 3\<rparr> +
   rejected \<lparr>total = 3, approved = 1, rejected = 1, pending = 1, today = 3\<rparr> =
   total \<lparr>total = 3, approved = 1, rejected = 1, pending = 1, today = 3\<rparr>"
proof -
  have h: "get_statistics unset_env 0 (store_at 14) (store_at 14) (store_at 14) (store_at 14)
     (store_at 14)
     (run unset_env
        [submit_alice, submit_bob, submit_carol,
         Put_approve 1 0 0 (store_at 12) (store_at 12),
         Put_reject 2 0 0 (store_at 13) (store_at 13)] (boot False)) =
     (Json_statistics \<lparr>total = 3, approved = 1, rejected = 1, pending = 1, today = 3\<rparr>,
      run unset_env
        [submit_alice, submit_bob, submit_carol,
         Put_approve 1 0 0 (store_at 12) (store_at 12),
         Put_reject 2 0 0 (store_at 13) (store_at 13)] (boot False))"
    by (simp add: handler_defs)
  from h statistics_counts_add_up [OF h] show ?thesis by (rule conjI)
qed

text \<open>
  Claim C8. In every reachable state the \<^verbatim>\<open>total\<close> of the statistics is the length of the
  list of all requests.
\<close>

theorem statistics_total_is_list_length:
  assumes "get_statistics e m c1 c2 c3 c4 c5 (run e xs (boot b)) = (Json_statistics st, s1)"
    and "get_login_requests e c (run e xs (boot b)) = (Json_requests rs, s2)"
  shows "total st = length rs"
proof -
  from assms(2) have "rs = order_by_created_at_desc (requests_tbl (db (run e xs (boot b))))"
    by (rule get_login_requests_Json)
  then show ?thesis
    by (simp add: get_statistics_Json(1)[OF assms(1)] order_by_created_at_desc_length)
qed

theorem statistics_total_is_list_length_witness:
  "get_statistics unset_env 8 (store_at 10) (store_at 10) (store_at 10) (store_at 10)
     (store_at 10) (run unset_env [submit_alice, submit_bob] (boot False)) =
     (Json_statistics \<lparr>total = 2, approved = 0, rejected = 0, pending = 2, today = 1\<rparr>,
      run unset_env [submit_alice, submit_bob] (boot False)) \<and>
   get_login_requests unset_env (store_at 10)
     (run unset_env [submit_alice, submit_bob] (boot False)) =
     (Json_requests [bob_request, alice_request ''pending'' 7],
      run unset_env [submit_alice, submit_bob] (boot False)) \<and>
   total \<lparr>total = 2, approved = 0, rejected = 0, pending = 2, today = 1\<rparr> =
     length [bob_request, alice_request ''pending'' 7]"
proof -
  have h1: "get_statistics unset_env 8 (store_at 10) (store_at 10) (store_at 10) (store_at 10)
     (store_at 10) (run unset_env [submit_alice, submit_bob] (boot False)) =
     (Json_statistics \<lparr>total = 2, approved = 0, rejected = 0, pending = 2, today = 1\<rparr>,
      run unset_env [submit_alice, submit_bob] (boot False))"
    by (simp add: handler_defs)
  have h2: "get_login_requests unset_env (store_at 10)
     (run unset_env [submit_alice, submit_bob] (boot False)) =
     (Json_requests [bob_request, alice_request ''pending'' 7],
      run unset_env [submit_alice, submit_bob] (boot False))"
    by (simp add: handler_defs)
  from h1 h2 statistics_total_is_list_length [OF h1 h2] show ?thesis by (intro conjI)
qed

text \<open>
  Claim C9, as stated: approving a pending request and reading it back gives status
  \<^verbatim>\<open>approved\<close> and an \<^verbatim>\<open>updated_at\<close> strictly greater than its \<^verbatim>\<open>created_at\<close>. When the
  store's clock reads 7 at the \<^verbatim>\<open>INSERT\<close> and 7 again at the \<^verbatim>\<open>UPDATE\<close>, the record read
  back has both timestamps 7.
\<close>

theorem approve_same_tick_updated_at_not_greater:
  "stored_requests unset_env (run unset_env [submit_alice] (boot False)) =
     [alice_request ''pending'' 7] \<and>
   fst (put_approve unset_env 1 0 0 (store_at 7) (store_at 7)
          (run unset_env [submit_alice] (boot False))) =
     Json_request (alice_request ''approved'' 7) \<and>
   fst (get_login_request unset_env 1 (store_at 7)
          (snd (put_approve unset_env 1 0 0 (store_at 7) (store_at 7)
                  (run unset_env [submit_alice] (boot False))))) =
     Json_request (alice_request ''approved'' 7) \<and>
   \<not> created_at (alice_request ''pending'' 7) < updated_at (alice_request ''approved'' 7)"
  by (simp add: handler_defs)

text \<open>
  Claim C9, amended: approving a pending request and reading it back gives status
  \<^verbatim>\<open>approved\<close>, the \<^verbatim>\<open>created_at\<close> it had, and as \<^verbatim>\<open>updated_at\<close> the store's time at the
  \<^verbatim>\<open>UPDATE\<close>; \<^verbatim>\<open>updated_at\<close> is strictly greater than \<^verbatim>\<open>created_at\<close> whenever that time is
  later than \<^verbatim>\<open>created_at\<close>.
\<close>

theorem approve_then_get_by_id:
  assumes "r \<in> set (stored_requests e (run e xs (boot b)))" and "req_id r = i"
    and "status r = ''pending''"
    and "put_approve e i t1 t2 c1 c2 (run e xs (boot b)) = (Json_request r1, s1)"
    and "up c"
  shows "\<exists>r2. get_login_request e i c s1 = (Json_request r2, s1) \<and>
           status r2 = ''approved'' \<and> updated_at r2 = current_timestamp c1 \<and>
           created_at r2 = created_at r \<and>
           (created_at r < current_timestamp c1 \<longrightarrow> created_at r < updated_at r2)"
proof -
  let ?s = "run e xs (boot b)"
  have inv: "db_inv (db ?s)" by (rule reachable_inv)
  have mem: "r \<in> set (requests_tbl (db ?s))" using assms(1) by (simp add: stored_requests_db)
  have p: "put_resolve ''approved'' e i t1 t2 c1 c2 ?s = (Json_request r1, s1)"
    using assms(4) by (simp add: put_approve_def)
  note u = put_resolve_Json(1,2,3)[OF p]
  from put_resolve_success[OF u(1) inv mem assms(2) u(2,3), of "''approved''" e t1 t2] p
  have s1: "requests_tbl (db s1) =
              map (\<lambda>r. if req_id r = i
                        then r\<lparr>status := ''approved'', updated_at := current_timestamp c1\<rparr>
                        else r) (requests_tbl (db ?s))"
    by auto
  have d: "distinct (map req_id (requests_tbl (db ?s)))" using inv by (simp add: db_inv_def)
  have "filter (\<lambda>x. req_id x = i) (requests_tbl (db s1)) =
          [r\<lparr>status := ''approved'', updated_at := current_timestamp c1\<rparr>]"
    unfolding s1 by (rule filter_update_present[OF d mem assms(2)])
  moreover have "pool s1 = Pg_pool"
    using put_resolve_pool[of "''approved''" e i t1 t2 c1 c2 ?s] p u(1) by simp
  ultimately show ?thesis using assms(5)
    by (simp add: get_login_request_def using_mock_never select_by_id_def pool_query_def)
qed

theorem approve_then_get_by_id_witness:
  "alice_request ''pending'' 7 \<in>
     set (stored_requests unset_env (run unset_env [submit_alice] (boot False))) \<and>
   put_approve unset_env 1 0 0 (store_at 8) (store_at 8)
     (run unset_env [submit_alice] (boot False)) =
     (Json_request (alice_request ''approved'' 8),
      run unset_env [submit_alice, Put_approve 1 0 0 (store_at 8) (store_at 8)]
        (boot False)) \<and>
   (\<exists>r2. get_login_request unset_env 1 (store_at 9)
           (run unset_env [submit_alice, Put_approve 1 0 0 (store_at 8) (store_at 8)]
              (boot False)) =
           (Json_request r2,
            run unset_env [submit_alice, Put_approve 1 0 0 (store_at 8) (store_at 8)]
              (boot False)) \<and>
         status r2 = ''approved'' \<and> updated_at r2 = 8 \<and>
         created_at (alice_request ''pending'' 7) < updated_at r2)"
proof -
  have h1: "alice_request ''pending'' 7 \<in>
     set (stored_requests unset_env (run unset_env [submit_alice] (boot False)))"
    by (simp add: handler_defs)
  have h2: "req_id (alice_request ''pending'' 7) = 1" by simp
  have h3: "status (alice_request ''pending'' 7) = ''pending''" by simp
  have h4: "put_approve unset_env 1 0 0 (store_at 8) (store_at 8)
     (run unset_env [submit_alice] (boot False)) =
     (Json_request (alice_request ''approved'' 8),
      run unset_env [submit_alice, Put_approve 1 0 0 (store_at 8) (store_at 8)]
        (boot False))"
    by (simp add: handler_defs)
  have h5: "up (store_at 9)" by simp
  from approve_then_get_by_id [OF h1 h2 h3 h4 h5]
  obtain r2 where
    "get_login_request unset_env 1 (store_at 9)
       (run unset_env [submit_alice, Put_approve 1 0 0 (store_at 8) (store_at 8)]
          (boot False)) =
     (Json_request r2,
      run unset_env [submit_alice, Put_approve 1 0 0 (store_at 8) (store_at 8)]
        (boot False))"
    "status r2 = ''approved''" "updated_at r2 = 8"
    "created_at (alice_request ''pending'' 7) < updated_at r2"
    by auto
  with h1 h4 show ?thesis by blast
qed

text \<open>
  Claim C10. A submission whose \<^verbatim>\<open>ipAddress\<close> is falsy (the empty string, \<^verbatim>\<open>false\<close>,
  \<^verbatim>\<open>null\<close>) stores and returns \<^verbatim>\<open>ip_address\<close> \<^verbatim>\<open>127.0.0.1\<close>, not the value submitted.
\<close>

theorem submit_falsy_ip_defaults:
  assumes "\<not> truthy ip"
    and "post_login_requests e u p ip t1 t2 c s = (Json_request r, s')"
  shows "ip_address r = JStr ''127.0.0.1'' \<and> ip_address r \<noteq> ip \<and>
         stored_requests e s' = stored_requests e s @ [r]"
proof -
  note f = post_login_requests_Json[OF assms(2)]
  have ip: "ip_address r = JStr ''127.0.0.1''"
    using f(5) assms(1) by (simp add: js_or_def varchar_def)
  moreover have "ip_address r \<noteq> ip" using ip assms(1) by auto
  ultimately show ?thesis
    by (simp add: f(6) stored_requests_db)
qed

theorem submit_falsy_ip_defaults_witness:
  "\<not> truthy (JStr []) \<and>
   post_login_requests unset_env (JStr ''carol'') (JStr ''pw3'') (JStr []) 0 0 (store_at 11)
     (boot False) =
     (Json_request carol_request, run unset_env [submit_carol] (boot False)) \<and>
   ip_address carol_request = JStr ''127.0.0.1'' \<and>
   ip_address carol_request \<noteq> JStr [] \<and>
   stored_requests unset_env (run unset_env [submit_carol] (boot False)) =
     stored_requests unset_env (boot False) @ [carol_request]"
proof -
  have f: "\<not> truthy (JStr [])" by simp
  have h: "post_login_requests unset_env (JStr ''carol'') (JStr ''pw3'') (JStr []) 0 0
     (store_at 11) (boot False) =
     (Json_request carol_request, run unset_env [submit_carol] (boot False))"
    by (simp add: handler_defs)
  from f h submit_falsy_ip_defaults [OF f h] show ?thesis by blast
qed

end
